theory Spec2Isabelle
  imports Main "HOL-Library.Sublist"
begin

section \<open>Strings, as the plugin base class uses them\<close>

text \<open>
  Python strings are sequences of code points. The model covers the code points
  0..255 (the type \<open>char\<close>); on these, \<open>str.lower()\<close> and the regular expression
  class \<open>\w\<close> (compiled with \<open>re.UNICODE\<close>) are written out from Python's Unicode
  tables: the upper-case letters are A-Z, U+00C0..U+00D6 and U+00D8..U+00DE, each 32 below
  its lower-case form, and a word character is an alphanumeric code point or the
  underscore.
\<close>

definition lower_char :: "char \<Rightarrow> char" where
  "lower_char c =
     (let n = (of_char c :: nat) in
      if (65 \<le> n \<and> n \<le> 90) \<or> (192 \<le> n \<and> n \<le> 214) \<or> (216 \<le> n \<and> n \<le> 222)
      then char_of (n + 32) else c)"

definition lower :: "string \<Rightarrow> string" where
  "lower s = map lower_char s"

definition is_word_char :: "char \<Rightarrow> bool" where
  "is_word_char c =
     (let n = (of_char c :: nat) in
      (48 \<le> n \<and> n \<le> 57) \<or> (65 \<le> n \<and> n \<le> 90) \<or> n = 95 \<or> (97 \<le> n \<and> n \<le> 122) \<or>
      n = 170 \<or> n = 178 \<or> n = 179 \<or> n = 181 \<or> n = 185 \<or> n = 186 \<or>
      (188 \<le> n \<and> n \<le> 190) \<or> (192 \<le> n \<and> n \<le> 214) \<or> (216 \<le> n \<and> n \<le> 246) \<or>
      (248 \<le> n \<and> n \<le> 255))"

text \<open>\<^verbatim>\<open>a in b\<close> on two strings: \<open>a\<close> occurs in \<open>b\<close> as a contiguous run.\<close>

fun str_in :: "string \<Rightarrow> string \<Rightarrow> bool" where
  "str_in xs [] = (xs = [])"
| "str_in xs (y # ys) = (prefix xs (y # ys) \<or> str_in xs ys)"

subsection \<open>The ban pattern\<close>

text \<open>
  \<^verbatim>\<open>self.RE_BANMSG = re.compile(r'ban /([r|u])/([\d\w_]*)', re.UNICODE)\<close>

  The pattern is the literal \<^verbatim>\<open>ban /\<close>, one character of the class \<^verbatim>\<open>[r|u]\<close>
  (the letters r and u and the vertical bar), a slash, and a greedy run of word
  characters, which may be empty. Nothing follows the run, so a match at a given start
  never backtracks: the second group is the longest run. \<open>search\<close> returns the groups
  of the leftmost start at which the pattern matches.
\<close>

fun strip_prefix :: "'a list \<Rightarrow> 'a list \<Rightarrow> 'a list option" where
  "strip_prefix [] ys = Some ys"
| "strip_prefix (x # xs) [] = None"
| "strip_prefix (x # xs) (y # ys) = (if x = y then strip_prefix xs ys else None)"

definition RE_BANMSG_match :: "string \<Rightarrow> (string \<times> string) option" where
  "RE_BANMSG_match s =
     (case strip_prefix ''ban /'' s of
        Some (x # y # rest) \<Rightarrow>
          if (x = CHR ''r'' \<or> x = CHR ''|'' \<or> x = CHR ''u'') \<and> y = CHR ''/''
          then Some ([x], takeWhile is_word_char rest) else None
      | _ \<Rightarrow> None)"

fun RE_BANMSG_search :: "string \<Rightarrow> (string \<times> string) option" where
  "RE_BANMSG_search [] = RE_BANMSG_match []"
| "RE_BANMSG_search (c # cs) =
     (case RE_BANMSG_match (c # cs) of
        Some g \<Rightarrow> Some g
      | None \<Rightarrow> RE_BANMSG_search cs)"

section \<open>The data the base class works on\<close>

text \<open>
  A private message as \<open>standard_ban_procedure\<close> reads it: \<open>author\<close> is
  \<^verbatim>\<open>message.author.name\<close>, or \<open>None\<close> when \<^verbatim>\<open>message.author\<close> is None;
  \<open>subreddit\<close> is \<^verbatim>\<open>message.subreddit.display_name\<close>, or \<open>None\<close> when
  \<^verbatim>\<open>message.subreddit\<close> is None.
\<close>

record message =
  author :: "string option"
  subreddit :: "string option"
  was_comment :: bool
  body :: string

text \<open>
  What \<^verbatim>\<open>r.get_info(thing_id=...)\<close> returns: a submission, a comment, or
  anything else (None for an unknown id).
\<close>

datatype thing =
    Submission (is_self: bool) (selftext: string) (fullname: string)
  | Comment (fullname: string)
  | NoThing

datatype error = HTTPException | AssertionError | AttributeError | TypeError | OtherError

datatype DatabaseProvider = DatabaseProvider

datatype RedditRoverHandler = RedditRoverHandler

text \<open>
  A \<^verbatim>\<open>praw.Reddit\<close> session: the application key, secret and redirect address
  given to \<open>set_oauth_app_info\<close>, and the access token bound by
  \<open>set_access_credentials\<close>.
\<close>

record reddit =
  user_agent :: string
  oauth_app_info :: "(string \<times> string \<times> string) option"
  access_credentials :: "string option"

text \<open>
  Every call to the platform, the store, the logger, the clock or a handler of the
  plugin is an event of the run, in the order the calls are made.
\<close>

datatype event =
    Time
  | Refresh_access_information string
  | Set_access_credentials string
  | Reddit string
  | Get_unread
  | Mark_as_read message
  | On_new_message message
  | Add_userban_per_module string string
  | Add_subreddit_ban_per_module string string
  | Reply message string
  | Insert_into_update string string int
  | Logger_info string
  | Logger_error string
  | Execute_submission thing
  | Execute_titlepost thing
  | Execute_link thing
  | Execute_comment thing

text \<open>
  The attributes of a \<open>PluginBase\<close> object. An attribute that \<open>__init__\<close> may leave
  unset is an option: reading it when it is \<open>None\<close> raises AttributeError.
  \<open>session\<close>, \<open>database\<close> and \<open>handler\<close> are always set, possibly to Python's None.
  Timestamps are seconds, as exact integers.
\<close>

record plugin =
  OA_TOKEN_DURATION :: int
  session :: "reddit option"
  database :: "DatabaseProvider option"
  BOT_NAME :: string
  handler :: "RedditRoverHandler option"
  DESCRIPTION :: "string option"
  OA_APP_KEY :: "string option"
  OA_APP_SECRET :: "string option"
  OA_REFRESH_TOKEN :: "string option"
  OA_ACCESS_TOKEN :: "string option"
  OA_VALID_UNTIL :: "int option"
  events :: "event list"

definition emit :: "event \<Rightarrow> plugin \<Rightarrow> plugin" where
  "emit e s = s\<lparr>events := events s @ [e]\<rparr>"

section \<open>standard_ban_procedure\<close>

text \<open>
  \<^verbatim>\<open>
  if message.author:
      author, human = message.author.name.lower(), True
  else:
      author, human = message.subreddit.display_name.lower(), False
  \<close>
  The name is returned as the message has it; the procedure lowers it.
\<close>

definition sender :: "message \<Rightarrow> error + (string \<times> bool)" where
  "sender m =
     (case author m of
        Some name \<Rightarrow> Inr (name, True)
      | None \<Rightarrow>
          (case subreddit m of
             Some name \<Rightarrow> Inr (name, False)
           | None \<Rightarrow> Inl AttributeError))"

definition user_ban_reply :: "string \<Rightarrow> string \<Rightarrow> string" where
  "user_ban_reply at bn =
     ''Successfully banned /u/'' @ at @ '' from '' @ bn @
     ''. The bot should ignore you from now on.'' @ [CHR 0x0A, CHR 0x0A] @ ''Have a nice day!''"

definition subreddit_ban_reply :: "string \<Rightarrow> string \<Rightarrow> string" where
  "subreddit_ban_reply sb bn =
     ''Successfully banned /r/'' @ sb @ '' from '' @ bn @
     ''. The bot should ignore this subreddit from now on.'' @ [CHR 0x0A, CHR 0x0A] @
     ''Have a nice day!''"

definition ban_user :: "message \<Rightarrow> string \<Rightarrow> plugin \<Rightarrow> (error + unit) \<times> plugin" where
  "ban_user m at s =
     (let bn = BOT_NAME s in
      case database s of
        None \<Rightarrow> (Inl AttributeError, s)
      | Some db \<Rightarrow>
          (Inr (),
           emit (Logger_info (''Banned /u/'' @ at @ '' from '' @ bn @ '' on message request.''))
             (emit (Reply m (user_ban_reply at bn))
               (emit (Add_userban_per_module at bn) s))))"

definition ban_subreddit :: "message \<Rightarrow> plugin \<Rightarrow> (error + unit) \<times> plugin" where
  "ban_subreddit m s =
     (case subreddit m of
        None \<Rightarrow> (Inl AttributeError, s)
      | Some sb \<Rightarrow>
          (let bn = BOT_NAME s in
           case database s of
             None \<Rightarrow> (Inl AttributeError, s)
           | Some db \<Rightarrow>
               (Inr (),
                emit (Logger_info (''Banned /r/'' @ sb @ '' from '' @ bn @ '' on message request''))
                  (emit (Reply m (subreddit_ban_reply sb bn))
                    (emit (Add_subreddit_ban_per_module sb bn) s)))))"

definition standard_ban_procedure ::
  "message \<Rightarrow> bool \<Rightarrow> bool \<Rightarrow> plugin \<Rightarrow> (error + unit) \<times> plugin" where
  "standard_ban_procedure m subreddit_banning_allowed user_banning_allowed s =
     (case sender m of
        Inl e \<Rightarrow> (Inl e, s)
      | Inr (name, human) \<Rightarrow>
          (let author = lower name in
           if \<not> was_comment m \<and> str_in author (lower (body m)) then
             (case RE_BANMSG_search (body m) of
                None \<Rightarrow> (Inr (), s)
              | Some (sub, result) \<Rightarrow>
                  (let type_consistency =
                         ((lower sub = ''r'' \<and> \<not> human) \<or> (lower sub = ''u'' \<and> human))
                   in
                   if author = lower result \<and> type_consistency then
                     if human \<and> user_banning_allowed then ban_user m name s
                     else if subreddit_banning_allowed then ban_subreddit m s
                     else (Inr (), s)
                   else (Inr (), s)))
           else (Inr (), s)))"

section \<open>The world outside the process\<close>

text \<open>
  What the platform, the clock and the plugin's own handler answer. Each answer is
  indexed by the number of events before the call, so an answer may differ from one
  call to the next: any sequence of outcomes is some \<open>env\<close>. A call answers by
  returning or by raising an error. \<open>get_unread\<close> is a lazy listing: it yields
  messages and may raise after the last one it yields. \<open>max_attempts\<close> is the number
  of attempts of the \<open>retry\<close> decorator.
\<close>

record env =
  max_attempts :: nat
  time :: "nat \<Rightarrow> int"
  refresh_access_information :: "nat \<Rightarrow> error + string"
  set_access_credentials :: "nat \<Rightarrow> error option"
  get_unread :: "nat \<Rightarrow> message list \<times> error option"
  mark_as_read :: "nat \<Rightarrow> error option"
  on_new_message :: "nat \<Rightarrow> error option"
  get_info :: "string \<Rightarrow> thing"

section \<open>The retry decorator\<close>

text \<open>
  Modelled from the spec: \<^verbatim>\<open>core.decorators.retry\<close> is imported by
  \<^verbatim>\<open>baseclass.py\<close> and is not among the sources. The spec's words:
  \<^verbatim>\<open>withRetry(operation, isRetryable, maxAttempts)\<close> executes \<open>operation\<close>; if it
  fails with an error for which \<open>isRetryable(error)\<close> is true, retry up to
  \<open>maxAttempts - 1\<close> additional times; any other error propagates immediately on
  first occurrence; exhausting attempts propagates the last error.
  An operation that does not return (\<open>None\<close>) is not retried.
\<close>

fun retry_loop ::
  "nat \<Rightarrow> (error \<Rightarrow> bool) \<Rightarrow> (plugin \<Rightarrow> ((error + 'a) \<times> plugin) option) \<Rightarrow>
   plugin \<Rightarrow> ((error + 'a) \<times> plugin) option" where
  "retry_loop 0 isRetryable operation s = operation s"
| "retry_loop (Suc n) isRetryable operation s =
     (case operation s of
        None \<Rightarrow> None
      | Some (Inr v, s') \<Rightarrow> Some (Inr v, s')
      | Some (Inl e, s') \<Rightarrow>
          if isRetryable e then retry_loop n isRetryable operation s' else Some (Inl e, s'))"

definition withRetry ::
  "(plugin \<Rightarrow> ((error + 'a) \<times> plugin) option) \<Rightarrow> (error \<Rightarrow> bool) \<Rightarrow> nat \<Rightarrow>
   plugin \<Rightarrow> ((error + 'a) \<times> plugin) option" where
  "withRetry operation isRetryable maxAttempts = retry_loop (maxAttempts - 1) isRetryable operation"

text \<open>\<^verbatim>\<open>@retry(HTTPException)\<close>\<close>

definition retry ::
  "error \<Rightarrow> env \<Rightarrow> (plugin \<Rightarrow> ((error + 'a) \<times> plugin) option) \<Rightarrow>
   plugin \<Rightarrow> ((error + 'a) \<times> plugin) option" where
  "retry exc w operation = withRetry operation (\<lambda>e. e = exc) (max_attempts w)"

section \<open>The constructor\<close>

text \<open>
  \<open>__init__\<close> with \<open>setup_from_config=False\<close>: the assignments before the
  configuration is read. The other attributes stay unset.
\<close>

definition init :: "DatabaseProvider option \<Rightarrow> RedditRoverHandler option \<Rightarrow> string \<Rightarrow> plugin" where
  "init db h bot_name =
     \<lparr>OA_TOKEN_DURATION = 3540, session = None, database = db, BOT_NAME = bot_name,
      handler = h, DESCRIPTION = None, OA_APP_KEY = None, OA_APP_SECRET = None,
      OA_REFRESH_TOKEN = None, OA_ACCESS_TOKEN = None, OA_VALID_UNTIL = None, events = []\<rparr>"

section \<open>Refreshing the access token\<close>

text \<open>
  \<^verbatim>\<open>force or time() > self.OA_VALID_UNTIL\<close>: with \<open>force\<close> the clock is not read;
  without it the clock is read and then the attribute, which raises AttributeError when
  no refresh has set it.
\<close>

definition refresh_due :: "env \<Rightarrow> bool \<Rightarrow> plugin \<Rightarrow> (error + bool) \<times> plugin" where
  "refresh_due w force s =
     (if force then (Inr True, s)
      else
        (case OA_VALID_UNTIL s of
           None \<Rightarrow> (Inl AttributeError, emit Time s)
         | Some valid_until \<Rightarrow> (Inr (valid_until < time w (length (events s))), emit Time s)))"

text \<open>
  \<^verbatim>\<open>
  token_dict = self.session.refresh_access_information(self.OA_REFRESH_TOKEN)
  self.OA_ACCESS_TOKEN = token_dict['access_token']
  self.OA_VALID_UNTIL = time() + self.OA_TOKEN_DURATION
  self.session.set_access_credentials(**token_dict)
  \<close>
\<close>

definition exchange :: "env \<Rightarrow> string \<Rightarrow> plugin \<Rightarrow> (error + unit) \<times> plugin" where
  "exchange w refresh_token s =
     (let s1 = emit (Refresh_access_information refresh_token) s in
      case refresh_access_information w (length (events s)) of
        Inl e \<Rightarrow> (Inl e, s1)
      | Inr token \<Rightarrow>
          (let s2 = (emit Time s1)
                 \<lparr>OA_ACCESS_TOKEN := Some token,
                  OA_VALID_UNTIL := Some (time w (length (events s1)) + OA_TOKEN_DURATION s1)\<rparr>;
               s3 = emit (Set_access_credentials token) s2
           in
           case set_access_credentials w (length (events s2)) of
             Some e \<Rightarrow> (Inl e, s3)
           | None \<Rightarrow>
               (Inr (),
                s3\<lparr>session :=
                     map_option (\<lambda>r. r\<lparr>access_credentials := Some token\<rparr>) (session s3)\<rparr>)))"

text \<open>The function under the decorator: one attempt of \<open>_oa_refresh\<close>.\<close>

definition priv_oa_refresh_body :: "env \<Rightarrow> bool \<Rightarrow> plugin \<Rightarrow> (error + unit) \<times> plugin" where
  "priv_oa_refresh_body w force s =
     (case OA_REFRESH_TOKEN s of
        None \<Rightarrow> (Inl AttributeError, s)
      | Some refresh_token \<Rightarrow>
          if refresh_token = [] \<or> session s = None then (Inl AssertionError, s)
          else
            (case refresh_due w force s of
               (Inl e, s1) \<Rightarrow> (Inl e, s1)
             | (Inr False, s1) \<Rightarrow> (Inr (), s1)
             | (Inr True, s1) \<Rightarrow> exchange w refresh_token s1))"

text \<open>\<open>_oa_refresh\<close>, as decorated.\<close>

definition priv_oa_refresh ::
  "env \<Rightarrow> bool \<Rightarrow> plugin \<Rightarrow> ((error + unit) \<times> plugin) option" where
  "priv_oa_refresh w force = retry HTTPException w (\<lambda>s. Some (priv_oa_refresh_body w force s))"

text \<open>
  The assertion of \<open>factory_reddit\<close>:
  \<^verbatim>\<open>assert self.DESCRIPTION and self.handler and self.OA_APP_KEY and self.OA_APP_SECRET\<close>,
  read from the left, stopping at the first empty value.
\<close>

definition factory_assert :: "plugin \<Rightarrow> error + (string \<times> string \<times> string)" where
  "factory_assert s =
     (case DESCRIPTION s of
        None \<Rightarrow> Inl AttributeError
      | Some d \<Rightarrow>
          if d = [] \<or> handler s = None then Inl AssertionError
          else
            (case OA_APP_KEY s of
               None \<Rightarrow> Inl AttributeError
             | Some k \<Rightarrow>
                 if k = [] then Inl AssertionError
                 else
                   (case OA_APP_SECRET s of
                      None \<Rightarrow> Inl AttributeError
                    | Some c \<Rightarrow> if c = [] then Inl AssertionError else Inr (d, k, c))))"

definition new_session :: "string \<Rightarrow> string \<Rightarrow> string \<Rightarrow> plugin \<Rightarrow> plugin" where
  "new_session d k c s =
     (emit (Reddit d) s)
       \<lparr>session :=
          Some \<lparr>user_agent = d,
                oauth_app_info = Some (k, c, ''http://127.0.0.1:65010/authorize_callback''),
                access_credentials = None\<rparr>\<rparr>"

text \<open>
  \<open>oa_refresh\<close> and \<open>factory_reddit\<close> call each other. The first argument bounds
  the depth of the calls of \<open>oa_refresh\<close>: \<open>None\<close> is a run that needs a deeper
  stack than that.
  \<^verbatim>\<open>
  def oa_refresh(self, force=False):
      try:
          self._oa_refresh(force)
      except HTTPException:
          self.factory_reddit()
          self._oa_refresh(force)
  \<close>
\<close>

fun oa_refresh :: "nat \<Rightarrow> env \<Rightarrow> bool \<Rightarrow> plugin \<Rightarrow> ((error + unit) \<times> plugin) option"
  and factory_reddit :: "nat \<Rightarrow> env \<Rightarrow> plugin \<Rightarrow> ((error + unit) \<times> plugin) option" where
  "oa_refresh 0 w force s = None"
| "oa_refresh (Suc depth) w force s =
     (case priv_oa_refresh w force s of
        None \<Rightarrow> None
      | Some (Inr u, s1) \<Rightarrow> Some (Inr u, s1)
      | Some (Inl e, s1) \<Rightarrow>
          if e = HTTPException then
            (case factory_reddit depth w s1 of
               None \<Rightarrow> None
             | Some (Inl e2, s2) \<Rightarrow> Some (Inl e2, s2)
             | Some (Inr u, s2) \<Rightarrow> priv_oa_refresh w force s2)
          else Some (Inl e, s1))"
| "factory_reddit depth w s =
     (case factory_assert s of
        Inl e \<Rightarrow> Some (Inl e, s)
      | Inr (d, k, c) \<Rightarrow> oa_refresh depth w True (new_session d k c s))"

section \<open>Unread messages\<close>

text \<open>
  \<^verbatim>\<open>
  for msg in msgs:
      msg.mark_as_read()
      self.on_new_message(msg)
  \<close>
\<close>

fun unread_loop :: "env \<Rightarrow> message list \<Rightarrow> plugin \<Rightarrow> (error + unit) \<times> plugin" where
  "unread_loop w [] s = (Inr (), s)"
| "unread_loop w (msg # msgs) s =
     (let s1 = emit (Mark_as_read msg) s in
      case mark_as_read w (length (events s)) of
        Some e \<Rightarrow> (Inl e, s1)
      | None \<Rightarrow>
          (let s2 = emit (On_new_message msg) s1 in
           case on_new_message w (length (events s1)) of
             Some e \<Rightarrow> (Inl e, s2)
           | None \<Rightarrow> unread_loop w msgs s2))"

text \<open>The body of the \<open>try\<close>: the listing is fetched and run down.\<close>

definition unread_try :: "env \<Rightarrow> plugin \<Rightarrow> (error + unit) \<times> plugin" where
  "unread_try w s =
     (case session s of
        None \<Rightarrow> (Inl AttributeError, s)
      | Some r \<Rightarrow>
          (case get_unread w (length (events s)) of
             (msgs, raised) \<Rightarrow>
               (case unread_loop w msgs (emit Get_unread s) of
                  (Inl e, s1) \<Rightarrow> (Inl e, s1)
                | (Inr u, s1) \<Rightarrow>
                    (case raised of Some e \<Rightarrow> (Inl e, s1) | None \<Rightarrow> (Inr (), s1)))))"

text \<open>
  The function under the decorator. \<open>__init__\<close> always sets \<open>session\<close>, so
  \<^verbatim>\<open>hasattr(self, "session")\<close> holds of every plugin.
  \<^verbatim>\<open>
  self.oa_refresh()
  try:
      msgs = self.session.get_unread()
      ...
  except AssertionError:
      pass
  \<close>
\<close>

definition get_unread_messages_body ::
  "nat \<Rightarrow> env \<Rightarrow> plugin \<Rightarrow> ((error + unit) \<times> plugin) option" where
  "get_unread_messages_body depth w s =
     (case oa_refresh depth w False s of
        None \<Rightarrow> None
      | Some (Inl e, s1) \<Rightarrow> Some (Inl e, s1)
      | Some (Inr u, s1) \<Rightarrow>
          (case unread_try w s1 of
             (Inl e, s2) \<Rightarrow> if e = AssertionError then Some (Inr (), s2) else Some (Inl e, s2)
           | (Inr u, s2) \<Rightarrow> Some (Inr (), s2)))"

definition get_unread_messages ::
  "nat \<Rightarrow> env \<Rightarrow> plugin \<Rightarrow> ((error + unit) \<times> plugin) option" where
  "get_unread_messages depth w = retry HTTPException w (get_unread_messages_body depth w)"

section \<open>Single things, and the update table\<close>

text \<open>\<open>__test_single_thing\<close>\<close>

definition test_single_thing :: "env \<Rightarrow> string \<Rightarrow> plugin \<Rightarrow> plugin" where
  "test_single_thing w thing_id s =
     (let s1 = emit (Reddit ''Bot Framework Test for a single submission.'') s;
          thing = get_info w thing_id
      in
      case thing of
        Submission self text name \<Rightarrow>
          if self \<and> text \<noteq> [] then emit (Execute_submission thing) s1
          else if self then emit (Execute_titlepost thing) s1
          else emit (Execute_link thing) s1
      | _ \<Rightarrow> emit (Execute_comment thing) s1)"

definition test_single_submission :: "env \<Rightarrow> string \<Rightarrow> plugin \<Rightarrow> plugin" where
  "test_single_submission w submission_id = test_single_thing w (''t3_'' @ submission_id)"

definition test_single_comment :: "env \<Rightarrow> string \<Rightarrow> plugin \<Rightarrow> plugin" where
  "test_single_comment w comment_id = test_single_thing w (''t1_'' @ comment_id)"

text \<open>
  \<^verbatim>\<open>
  if isinstance(response_object, praw.objects.Submission) or isinstance(praw.objects.Comment):
  \<close>
  The second \<open>isinstance\<close> has one argument: evaluating it raises TypeError. It is
  evaluated when the first is false.
\<close>

definition to_update :: "thing \<Rightarrow> int \<Rightarrow> plugin \<Rightarrow> (error + unit) \<times> plugin" where
  "to_update response_object lifetime s =
     (case database s of
        None \<Rightarrow>
          (Inr (),
           emit (Logger_error (BOT_NAME s @ '' does not have a valid database connection.'')) s)
      | Some db \<Rightarrow>
          (case response_object of
             Submission self text name \<Rightarrow>
               (Inr (), emit (Insert_into_update name (BOT_NAME s) lifetime) s)
           | _ \<Rightarrow> (Inl TypeError, s)))"

section \<open>What the properties speak of\<close>

text \<open>The calls of \<open>refresh_access_information\<close> made so far.\<close>

fun is_refresh_call :: "event \<Rightarrow> bool" where
  "is_refresh_call (Refresh_access_information refresh_token) = True"
| "is_refresh_call e = False"

definition refresh_calls :: "plugin \<Rightarrow> nat" where
  "refresh_calls s = length (filter is_refresh_call (events s))"




text \<open>
  The attributes that \<open>_oa_refresh\<close> and \<open>factory_reddit\<close> assert: a refresh token,
  a session, and the description, handler, key and secret.
\<close>

definition can_log_in :: "plugin \<Rightarrow> bool" where
  "can_log_in s =
     ((case OA_REFRESH_TOKEN s of None \<Rightarrow> False | Some refresh_token \<Rightarrow> refresh_token \<noteq> []) \<and>
      session s \<noteq> None \<and>
      (case factory_assert s of Inl e \<Rightarrow> False | Inr app \<Rightarrow> True))"

text \<open>What the loop over the unread messages does when nothing raises.\<close>

definition marked_and_dispatched :: "message list \<Rightarrow> event list" where
  "marked_and_dispatched msgs = concat (map (\<lambda>msg. [Mark_as_read msg, On_new_message msg]) msgs)"

section \<open>Concrete inputs\<close>

definition leafeator :: plugin where
  "leafeator = init (Some DatabaseProvider) (Some RedditRoverHandler) ''LeafeatorBot''"

text \<open>A user asks to be ignored; the name in the command differs in case.\<close>

definition msg_user_alice :: message where
  "msg_user_alice =
     \<lparr>author = Some ''Alice'', subreddit = None, was_comment = False,
      body = ''ban /u/alice please''\<rparr>"

text \<open>A user asks as if a subreddit.\<close>

definition msg_user_as_sub :: message where
  "msg_user_as_sub =
     \<lparr>author = Some ''alice'', subreddit = None, was_comment = False,
      body = ''ban /r/alice''\<rparr>"

text \<open>A user writes from within a subreddit: the message has an author and a subreddit.\<close>

definition msg_user_in_sub :: message where
  "msg_user_in_sub =
     \<lparr>author = Some ''alice'', subreddit = Some ''dota2'', was_comment = False,
      body = ''ban /u/alice''\<rparr>"

definition banned_alice :: plugin where
  "banned_alice =
     leafeator\<lparr>events :=
           [Add_userban_per_module ''Alice'' ''LeafeatorBot'',
            Reply msg_user_alice (user_ban_reply ''Alice'' ''LeafeatorBot''),
            Logger_info ''Banned /u/Alice from LeafeatorBot on message request.'']\<rparr>"

text \<open>The platform answers every call; two messages are unread.\<close>

definition platform_up :: env where
  "platform_up =
     \<lparr>max_attempts = 3, time = (\<lambda>k. 1440000000 + int k),
      refresh_access_information = (\<lambda>k. Inr ''token''),
      set_access_credentials = (\<lambda>k. None),
      get_unread = (\<lambda>k. ([msg_user_alice, msg_user_in_sub], None)),
      mark_as_read = (\<lambda>k. None), on_new_message = (\<lambda>k. None),
      get_info = (\<lambda>thing_id. if thing_id = ''t3_3ik036'' then Submission True ''necro'' ''t3_3ik036''
                   else if thing_id = ''t1_cuilwo5'' then Comment ''t1_cuilwo5'' else NoThing)\<rparr>"

text \<open>The platform answers every token exchange with an HTTP error.\<close>

definition platform_down :: env where
  "platform_down = platform_up\<lparr>refresh_access_information := (\<lambda>k. Inl HTTPException)\<rparr>"

text \<open>The plugin's own handler fails an assertion on every message.\<close>

definition handler_asserts :: env where
  "handler_asserts = platform_up\<lparr>on_new_message := (\<lambda>k. Some AssertionError)\<rparr>"


text \<open>
  A plugin as \<open>factory_reddit\<close> has it when it calls \<open>oa_refresh\<close>: the
  attributes read from the configuration, a new session, and no token yet.
\<close>

definition configured :: plugin where
  "configured =
     leafeator
       \<lparr>session := Some \<lparr>user_agent = ''Leafeator'', oauth_app_info =
            Some (''key'', ''secret'', ''http://127.0.0.1:65010/authorize_callback''),
            access_credentials = None\<rparr>,
        DESCRIPTION := Some ''Leafeator'', OA_APP_KEY := Some ''key'',
        OA_APP_SECRET := Some ''secret'', OA_REFRESH_TOKEN := Some ''refresh''\<rparr>"


text \<open>A plugin whose token is still valid at every reading of the clock above.\<close>

definition logged_in :: plugin where
  "logged_in =
     configured
       \<lparr>session := Some \<lparr>user_agent = ''Leafeator'', oauth_app_info =
            Some (''key'', ''secret'', ''http://127.0.0.1:65010/authorize_callback''),
            access_credentials = Some ''token''\<rparr>,
        OA_ACCESS_TOKEN := Some ''token'', OA_VALID_UNTIL := Some 1440003540\<rparr>"

text \<open>A plugin whose token ran out before every reading of the clock above.\<close>

definition expired :: plugin where
  "expired = configured\<lparr>OA_ACCESS_TOKEN := Some ''old'', OA_VALID_UNTIL := Some 1439990000\<rparr>"

section \<open>The ban pattern and the ban procedure\<close>

text \<open>
  \<open>str_in\<close> is the contiguous sublist relation of the library, and
  \<open>RE_BANMSG_search\<close> returns the groups of the match at the leftmost position where
  the pattern matches: the literal, one of the three characters, a slash and the longest
  run of word characters.
\<close>

lemma str_in_sublist: "str_in xs ys = sublist xs ys"
  by (induction ys) (auto simp: sublist_Cons_right)

lemma strip_prefix_Some: "strip_prefix xs ys = Some zs \<longleftrightarrow> ys = xs @ zs"
  by (induction xs ys rule: strip_prefix.induct) auto

lemma RE_BANMSG_match_Some:
  "RE_BANMSG_match s = Some (X, Y) \<longleftrightarrow>
     (\<exists>x rest. s = ''ban /'' @ x # CHR ''/'' # rest \<and> (x = CHR ''r'' \<or> x = CHR ''|'' \<or> x = CHR ''u'') \<and>
        X = [x] \<and> Y = takeWhile is_word_char rest)"
  unfolding RE_BANMSG_match_def
  by (auto simp: strip_prefix_Some split: option.splits list.splits)

lemma RE_BANMSG_search_Some:
  "RE_BANMSG_search b = Some g \<longleftrightarrow>
     (\<exists>pre s. b = pre @ s \<and> RE_BANMSG_match s = Some g \<and>
        (\<forall>n < length pre. RE_BANMSG_match (drop n b) = None))"
proof (induction b)
  case Nil
  then show ?case by auto
next
  case (Cons c cs)
  show ?case
  proof (cases "RE_BANMSG_match (c # cs)")
    case (Some h)
    show ?thesis
    proof
      assume "RE_BANMSG_search (c # cs) = Some g"
      with Some have "h = g" by simp
      with Some show "\<exists>pre s. c # cs = pre @ s \<and> RE_BANMSG_match s = Some g \<and>
        (\<forall>n < length pre. RE_BANMSG_match (drop n (c # cs)) = None)"
        by (intro exI[of _ "[]"] exI[of _ "c # cs"]) simp
    next
      assume "\<exists>pre s. c # cs = pre @ s \<and> RE_BANMSG_match s = Some g \<and>
        (\<forall>n < length pre. RE_BANMSG_match (drop n (c # cs)) = None)"
      then obtain pre s where ps: "c # cs = pre @ s" "RE_BANMSG_match s = Some g"
        "\<forall>n < length pre. RE_BANMSG_match (drop n (c # cs)) = None" by blast
      have "pre = []"
      proof (rule ccontr)
        assume "pre \<noteq> []"
        then have "0 < length pre" by simp
        with ps(3) have "RE_BANMSG_match (drop 0 (c # cs)) = None" by blast
        with Some show False by simp
      qed
      with ps(1) have "s = c # cs" by simp
      with ps(2) Some have "h = g" by simp
      with Some show "RE_BANMSG_search (c # cs) = Some g" by simp
    qed
  next
    case None
    then have "RE_BANMSG_search (c # cs) = RE_BANMSG_search cs" by simp
    also have "\<dots> = Some g \<longleftrightarrow> (\<exists>pre s. cs = pre @ s \<and> RE_BANMSG_match s = Some g \<and>
        (\<forall>n < length pre. RE_BANMSG_match (drop n cs) = None))"
      by (rule Cons.IH)
    also have "\<dots> \<longleftrightarrow> (\<exists>pre s. c # cs = pre @ s \<and> RE_BANMSG_match s = Some g \<and>
        (\<forall>n < length pre. RE_BANMSG_match (drop n (c # cs)) = None))"
    proof
      assume "\<exists>pre s. cs = pre @ s \<and> RE_BANMSG_match s = Some g \<and>
        (\<forall>n < length pre. RE_BANMSG_match (drop n cs) = None)"
      then obtain pre s where ps: "cs = pre @ s" "RE_BANMSG_match s = Some g"
        "\<forall>n < length pre. RE_BANMSG_match (drop n cs) = None" by blast
      have "\<forall>n < length (c # pre). RE_BANMSG_match (drop n (c # cs)) = None"
      proof (intro allI impI)
        fix n assume n: "n < length (c # pre)"
        show "RE_BANMSG_match (drop n (c # cs)) = None"
        proof (cases n)
          case 0
          with None show ?thesis by simp
        next
          case (Suc m)
          with n ps(3) show ?thesis by simp
        qed
      qed
      with ps show "\<exists>pre s. c # cs = pre @ s \<and> RE_BANMSG_match s = Some g \<and>
        (\<forall>n < length pre. RE_BANMSG_match (drop n (c # cs)) = None)"
        by (intro exI[of _ "c # pre"] exI[of _ s]) simp
    next
      assume "\<exists>pre s. c # cs = pre @ s \<and> RE_BANMSG_match s = Some g \<and>
        (\<forall>n < length pre. RE_BANMSG_match (drop n (c # cs)) = None)"
      then obtain pre s where ps: "c # cs = pre @ s" "RE_BANMSG_match s = Some g"
        "\<forall>n < length pre. RE_BANMSG_match (drop n (c # cs)) = None" by blast
      from ps(1,2) None obtain pre' where pre': "pre = c # pre'"
        by (cases pre) auto
      with ps(1) have cs: "cs = pre' @ s" by simp
      have "\<forall>n < length pre'. RE_BANMSG_match (drop n cs) = None"
      proof (intro allI impI)
        fix n assume "n < length pre'"
        with pre' have "Suc n < length pre" by simp
        with ps(3) have "RE_BANMSG_match (drop (Suc n) (c # cs)) = None" by blast
        then show "RE_BANMSG_match (drop n cs) = None" by simp
      qed
      with cs ps(2) show "\<exists>pre s. cs = pre @ s \<and> RE_BANMSG_match s = Some g \<and>
        (\<forall>n < length pre. RE_BANMSG_match (drop n cs) = None)" by blast
    qed
    finally show ?thesis .
  qed
qed

lemma search_group1:
  "RE_BANMSG_search b = Some (X, Y) \<Longrightarrow> X = ''r'' \<or> X = ''|'' \<or> X = ''u''"
  by (induction b) (auto simp: RE_BANMSG_match_def split: option.splits list.splits if_splits)

lemma lower_r: "lower ''r'' = ''r''"
  by code_simp

lemma lower_u: "lower ''u'' = ''u''"
  by code_simp

lemma lower_bar: "lower ''|'' = ''|''"
  by code_simp

lemma group1_lower:
  assumes "RE_BANMSG_search b = Some (X, Y)"
  shows "(lower X = ''r'') = (X = ''r'')" and "(lower X = ''u'') = (X = ''u'')"
  using search_group1[OF assms] by (auto simp: lower_r lower_u lower_bar)

lemma ban_user_cases:
  "ban_user m at s = (r, s') \<Longrightarrow>
     s' = s \<and> r = Inl AttributeError \<and> database s = None \<or>
     r = Inr () \<and> database s \<noteq> None \<and>
     events s' = events s @
       [Add_userban_per_module at (BOT_NAME s), Reply m (user_ban_reply at (BOT_NAME s)),
        Logger_info (''Banned /u/'' @ at @ '' from '' @ BOT_NAME s @ '' on message request.'')]"
  by (auto simp: ban_user_def emit_def Let_def split: option.splits)

lemma ban_subreddit_cases:
  "ban_subreddit m s = (r, s') \<Longrightarrow>
     s' = s \<and> r = Inl AttributeError \<and> (subreddit m = None \<or> database s = None) \<or>
     (\<exists>sb. subreddit m = Some sb \<and> r = Inr () \<and> database s \<noteq> None \<and>
       events s' = events s @
         [Add_subreddit_ban_per_module sb (BOT_NAME s),
          Reply m (subreddit_ban_reply sb (BOT_NAME s)),
          Logger_info (''Banned /r/'' @ sb @ '' from '' @ BOT_NAME s @ '' on message request'')])"
  by (auto simp: ban_subreddit_def emit_def Let_def split: option.splits)

lemma standard_ban_procedure_effects:
  assumes "standard_ban_procedure m sba uba s = (r, s')"
  shows "s' = s \<or>
         (\<exists>ban text info.
            events s' = events s @ [ban, Reply m text, Logger_info info] \<and>
            ((\<exists>a. ban = Add_userban_per_module a (BOT_NAME s)) \<or>
             (\<exists>c. ban = Add_subreddit_ban_per_module c (BOT_NAME s))))"
proof -
  have "s' = s \<or> (\<exists>a. ban_user m a s = (r, s')) \<or> ban_subreddit m s = (r, s')"
    using assms
    by (auto simp: standard_ban_procedure_def Let_def
        split: sum.splits prod.splits if_splits option.splits)
  then show ?thesis
    using ban_user_cases[of m _ s r s'] ban_subreddit_cases[of m s r s'] by fastforce
qed

text \<open>
  C1. \<open>standard_ban_procedure\<close> changes anything (records a ban, replies) only when the
  message is not a comment reply, the lowered name of the principal occurs in the lowered
  body, the ban pattern extracts a pair \<open>(X, Y)\<close> from the body, \<open>X\<close> is \<open>r\<close> for
  a subreddit principal or \<open>u\<close> for a human one, and \<open>Y\<close> lowered is the principal's
  name lowered. In every other case the state after is the state before: no store
  write, no reply, no event at all; and the procedure returns, unless the message has
  neither an author nor a subreddit, where the principal cannot be read and
  AttributeError is raised. When the state changes, what is added is one ban, one reply
  to the message and one log line.
\<close>

theorem standard_ban_procedure_only_authorised:
  assumes run: "standard_ban_procedure m subreddit_banning_allowed user_banning_allowed s = (r, s')"
  shows "((\<exists>name human X Y.
            sender m = Inr (name, human) \<and> \<not> was_comment m \<and>
            str_in (lower name) (lower (body m)) \<and>
            RE_BANMSG_search (body m) = Some (X, Y) \<and>
            (X = ''r'' \<and> \<not> human \<or> X = ''u'' \<and> human) \<and>
            lower Y = lower name)
          \<or> (s' = s \<and>
              (r = Inr () \<or> r = Inl AttributeError \<and> author m = None \<and> subreddit m = None)))
         \<and> (s' = s \<or>
             (\<exists>ban text info.
                events s' = events s @ [ban, Reply m text, Logger_info info] \<and>
                ((\<exists>a. ban = Add_userban_per_module a (BOT_NAME s)) \<or>
                 (\<exists>c. ban = Add_subreddit_ban_per_module c (BOT_NAME s)))))"
proof (rule conjI)
  show "s' = s \<or>
        (\<exists>ban text info.
           events s' = events s @ [ban, Reply m text, Logger_info info] \<and>
           ((\<exists>a. ban = Add_userban_per_module a (BOT_NAME s)) \<or>
            (\<exists>c. ban = Add_subreddit_ban_per_module c (BOT_NAME s))))"
    by (rule standard_ban_procedure_effects[OF run])
next
  let ?authorised =
    "\<exists>name human X Y.
       sender m = Inr (name, human) \<and> \<not> was_comment m \<and>
       str_in (lower name) (lower (body m)) \<and>
       RE_BANMSG_search (body m) = Some (X, Y) \<and>
       (X = ''r'' \<and> \<not> human \<or> X = ''u'' \<and> human) \<and>
       lower Y = lower name"
  let ?noop =
    "s' = s \<and> (r = Inr () \<or> r = Inl AttributeError \<and> author m = None \<and> subreddit m = None)"
  show "?authorised \<or> ?noop"
  proof (cases "sender m")
    case (Inl e)
    then have "e = AttributeError \<and> author m = None \<and> subreddit m = None"
      by (auto simp: sender_def split: option.splits)
    with Inl run show ?thesis
      by (simp add: standard_ban_procedure_def)
  next
    case (Inr p)
    obtain name human where p: "p = (name, human)"
      by (cases p)
    show ?thesis
    proof (cases "\<not> was_comment m \<and> str_in (lower name) (lower (body m))")
      case False
      with Inr p run show ?thesis
        by (auto simp: standard_ban_procedure_def)
    next
      case pre: True
      show ?thesis
      proof (cases "RE_BANMSG_search (body m)")
        case None
        with Inr p pre run show ?thesis
          by (auto simp: standard_ban_procedure_def)
      next
        case (Some g)
        obtain X Y where g: "g = (X, Y)"
          by (cases g)
        note grp = group1_lower[OF Some[unfolded g]]
        show ?thesis
        proof (cases "lower name = lower Y \<and> (X = ''r'' \<and> \<not> human \<or> X = ''u'' \<and> human)")
          case True
          with Inr p pre Some g show ?thesis
            by auto
        next
          case False
          with Inr p pre Some g run grp show ?thesis
            by (auto simp: standard_ban_procedure_def Let_def)
        qed
      qed
    qed
  qed
qed

theorem standard_ban_procedure_only_authorised_witness:
  "standard_ban_procedure msg_user_as_sub True True leafeator = (Inr (), leafeator) \<and>
   standard_ban_procedure msg_user_alice True True leafeator = (Inr (), banned_alice) \<and>
   (\<exists>name human X Y.
      sender msg_user_alice = Inr (name, human) \<and> \<not> was_comment msg_user_alice \<and>
      str_in (lower name) (lower (body msg_user_alice)) \<and>
      RE_BANMSG_search (body msg_user_alice) = Some (X, Y) \<and>
      (X = ''r'' \<and> \<not> human \<or> X = ''u'' \<and> human) \<and>
      lower Y = lower name)"
proof -
  have run: "standard_ban_procedure msg_user_alice True True leafeator = (Inr (), banned_alice)"
    by code_simp
  have changed: "banned_alice \<noteq> leafeator"
  proof
    assume "banned_alice = leafeator"
    then have "events banned_alice = events leafeator"
      by simp
    then show False
      by (simp add: banned_alice_def leafeator_def init_def)
  qed
  have noop: "standard_ban_procedure msg_user_as_sub True True leafeator = (Inr (), leafeator)"
    by code_simp
  from standard_ban_procedure_only_authorised[OF run] changed run noop show ?thesis
    by blast
qed

text \<open>
  C7. The pattern as compiled is matched as written: the capital letters of
  \<^verbatim>\<open>ban /U/alice\<close> and of \<^verbatim>\<open>BAN /U/alice\<close> do not match it, and the
  search finds nothing there, where it finds \<open>(u, alice)\<close> in the lower-case form.
  The class of the first group holds the vertical bar besides \<open>r\<close> and \<open>u\<close>, and
  the second group may be empty.
\<close>

theorem RE_BANMSG_is_case_sensitive:
  "RE_BANMSG_search ''ban /U/alice'' = None \<and>
   RE_BANMSG_search ''BAN /U/alice'' = None \<and>
   RE_BANMSG_search ''ban /u/alice'' = Some (''u'', ''alice'') \<and>
   RE_BANMSG_search ''ban /|/'' = Some (''|'', [])"
  by code_simp

text \<open>
  C6. With the banning of users switched off and the banning of subreddits left on, a
  user's own ban request falls through to the subreddit branch: the subreddit the message
  came from is banned and told so; and when the message came from no subreddit,
  AttributeError is raised.
\<close>

theorem user_toggle_off_bans_subreddit:
  "standard_ban_procedure msg_user_in_sub True False leafeator =
     (Inr (),
      leafeator\<lparr>events :=
            [Add_subreddit_ban_per_module ''dota2'' ''LeafeatorBot'',
             Reply msg_user_in_sub (subreddit_ban_reply ''dota2'' ''LeafeatorBot''),
             Logger_info ''Banned /r/dota2 from LeafeatorBot on message request'']\<rparr>) \<and>
   standard_ban_procedure msg_user_alice True False leafeator = (Inl AttributeError, leafeator)"
  by code_simp

section \<open>Single things, and the update table\<close>

text \<open>
  C5. \<open>__test_single_thing\<close> calls exactly one handler on the thing it fetched: the
  comment handler for a comment, the submission handler for a self post with text, the
  title handler for a self post without text, the link handler for a post that is not a
  self post.
\<close>

theorem test_single_thing_dispatch:
  fixes w thing_id s
  defines "thing \<equiv> get_info w thing_id"
  defines "calls \<equiv> drop (Suc (length (events s))) (events (test_single_thing w thing_id s))"
  shows "(\<forall>name. thing = Comment name \<longrightarrow> calls = [Execute_comment thing]) \<and>
         (\<forall>text name. thing = Submission True text name \<and> text \<noteq> [] \<longrightarrow>
            calls = [Execute_submission thing]) \<and>
         (\<forall>name. thing = Submission True [] name \<longrightarrow> calls = [Execute_titlepost thing]) \<and>
         (\<forall>text name. thing = Submission False text name \<longrightarrow> calls = [Execute_link thing])"
  by (auto simp: thing_def calls_def test_single_thing_def emit_def Let_def)

theorem test_single_thing_dispatch_witness:
  "drop (Suc (length (events leafeator)))
     (events (test_single_submission platform_up ''3ik036'' leafeator)) =
     [Execute_submission (Submission True ''necro'' ''t3_3ik036'')] \<and>
   drop (Suc (length (events leafeator)))
     (events (test_single_comment platform_up ''cuilwo5'' leafeator)) =
     [Execute_comment (Comment ''t1_cuilwo5'')]"
proof -
  have post: "get_info platform_up ''t3_3ik036'' = Submission True ''necro'' ''t3_3ik036'' \<and>
      ''necro'' \<noteq> []"
    by (simp add: platform_up_def)
  have comment: "get_info platform_up ''t1_cuilwo5'' = Comment ''t1_cuilwo5''"
    by (simp add: platform_up_def)
  from test_single_thing_dispatch[of platform_up "''t3_3ik036''" leafeator] post
    test_single_thing_dispatch[of platform_up "''t1_cuilwo5''" leafeator] comment
  show ?thesis
    by (simp add: test_single_submission_def test_single_comment_def)
qed

text \<open>
  C9. For a comment and a database, \<open>to_update\<close> raises TypeError and writes nothing.
\<close>

theorem to_update_comment_raises:
  "to_update (Comment ''t1_cuilwo5'') 1440000000 leafeator = (Inl TypeError, leafeator)"
  by (simp add: to_update_def leafeator_def init_def)

section \<open>Refreshing the access token\<close>

lemma emit_simps [simp]:
  "events (emit e s) = events s @ [e]"
  "OA_TOKEN_DURATION (emit e s) = OA_TOKEN_DURATION s"
  "OA_ACCESS_TOKEN (emit e s) = OA_ACCESS_TOKEN s"
  "OA_VALID_UNTIL (emit e s) = OA_VALID_UNTIL s"
  "OA_REFRESH_TOKEN (emit e s) = OA_REFRESH_TOKEN s"
  "session (emit e s) = session s"
  "database (emit e s) = database s"
  "BOT_NAME (emit e s) = BOT_NAME s"
  "handler (emit e s) = handler s"
  "DESCRIPTION (emit e s) = DESCRIPTION s"
  "OA_APP_KEY (emit e s) = OA_APP_KEY s"
  "OA_APP_SECRET (emit e s) = OA_APP_SECRET s"
  by (simp_all add: emit_def)

lemma retry_loop_returns:
  "operation s = Some (Inr v, s') \<Longrightarrow> retry_loop n p operation s = Some (Inr v, s')"
  by (cases n) simp_all

lemma retry_loop_propagates:
  "operation s = Some (Inl e, s') \<Longrightarrow> \<not> p e \<Longrightarrow> retry_loop n p operation s = Some (Inl e, s')"
  by (cases n) simp_all

lemma retry_loop_Inr:
  "retry_loop n p operation s = Some (Inr v, s') \<Longrightarrow> \<exists>s0. operation s0 = Some (Inr v, s')"
proof (induction n arbitrary: s)
  case 0
  then show ?case by auto
next
  case (Suc n)
  then show ?case
    by (auto split: option.splits sum.splits prod.splits if_splits)
qed

lemma retry_loop_all_fail:
  assumes op: "\<And>s. Q s \<Longrightarrow> \<exists>s'. operation s = Some (Inl HTTPException, s') \<and> Q s'"
  shows "Q s \<Longrightarrow> \<exists>s'. retry_loop n (\<lambda>e. e = HTTPException) operation s = Some (Inl HTTPException, s') \<and> Q s'"
proof (induction n arbitrary: s)
  case 0
  then show ?case using op by simp
next
  case (Suc n)
  from op[OF Suc.prems] obtain s1 where s1: "operation s = Some (Inl HTTPException, s1)" "Q s1"
    by blast
  from Suc.IH[OF s1(2)] s1(1) show ?case by simp
qed

lemma priv_oa_refresh_first_attempt:
  assumes "fst (priv_oa_refresh_body w force s) \<noteq> Inl HTTPException"
  shows "priv_oa_refresh w force s = Some (priv_oa_refresh_body w force s)"
proof -
  obtain r s' where b: "priv_oa_refresh_body w force s = (r, s')"
    by (cases "priv_oa_refresh_body w force s")
  show ?thesis
  proof (cases r)
    case (Inl e)
    with assms b have "e \<noteq> HTTPException" by simp
    with b Inl show ?thesis
      by (simp add: priv_oa_refresh_def retry_def withRetry_def retry_loop_propagates)
  next
    case (Inr u)
    with b show ?thesis
      by (simp add: priv_oa_refresh_def retry_def withRetry_def retry_loop_returns)
  qed
qed

lemma refresh_calls_emit:
  "refresh_calls (emit e s) = refresh_calls s + (if is_refresh_call e then 1 else 0)"
  by (simp add: refresh_calls_def)

lemma exchange_calls: "refresh_calls (snd (exchange w rt s)) = refresh_calls s + 1"
  by (simp add: exchange_def Let_def refresh_calls_def split: sum.splits option.splits)

text \<open>
  C4, as amended. Let the refresh token and the session be there, as \<open>_oa_refresh\<close>
  asserts. A check that is not forced exchanges the token exactly when an expiry is stored
  and the clock reads past it: then the attempt makes exactly one call of
  \<open>refresh_access_information\<close>; when the clock does not read past the stored expiry
  it makes none, returns, and leaves every attribute as it was (the clock was read, no
  more). A forced attempt always makes exactly one call. When no expiry is stored (no
  token was issued yet) and the check is not forced, AttributeError is raised and no call
  is made. The decorator repeats an attempt only when it raised HTTPException: otherwise
  \<open>_oa_refresh\<close> is its first attempt.
\<close>

theorem priv_oa_refresh_when_due:
  assumes token: "OA_REFRESH_TOKEN s = Some refresh_token" "refresh_token \<noteq> []"
    and sess: "session s \<noteq> None"
  shows "(\<forall>valid_until. OA_VALID_UNTIL s = Some valid_until \<and> \<not> valid_until < time w (length (events s)) \<longrightarrow>
            priv_oa_refresh w False s = Some (Inr (), emit Time s))
       \<and> (\<forall>valid_until. OA_VALID_UNTIL s = Some valid_until \<and> valid_until < time w (length (events s)) \<longrightarrow>
            refresh_calls (snd (priv_oa_refresh_body w False s)) = refresh_calls s + 1)
       \<and> refresh_calls (snd (priv_oa_refresh_body w True s)) = refresh_calls s + 1
       \<and> (OA_VALID_UNTIL s = None \<longrightarrow> priv_oa_refresh w False s = Some (Inl AttributeError, emit Time s))
       \<and> (fst (priv_oa_refresh_body w force s) \<noteq> Inl HTTPException \<longrightarrow>
            priv_oa_refresh w force s = Some (priv_oa_refresh_body w force s))"
proof (intro conjI allI impI)
  fix valid_until
  assume "OA_VALID_UNTIL s = Some valid_until \<and> \<not> valid_until < time w (length (events s))"
  then have "priv_oa_refresh_body w False s = (Inr (), emit Time s)"
    using token sess by (auto simp: priv_oa_refresh_body_def refresh_due_def)
  then show "priv_oa_refresh w False s = Some (Inr (), emit Time s)"
    using priv_oa_refresh_first_attempt[of w False s] by simp
next
  fix valid_until
  assume "OA_VALID_UNTIL s = Some valid_until \<and> valid_until < time w (length (events s))"
  then have "priv_oa_refresh_body w False s = exchange w refresh_token (emit Time s)"
    using token sess by (auto simp: priv_oa_refresh_body_def refresh_due_def)
  then show "refresh_calls (snd (priv_oa_refresh_body w False s)) = refresh_calls s + 1"
    by (simp add: exchange_calls refresh_calls_emit)
next
  have "priv_oa_refresh_body w True s = exchange w refresh_token s"
    using token sess by (auto simp: priv_oa_refresh_body_def refresh_due_def)
  then show "refresh_calls (snd (priv_oa_refresh_body w True s)) = refresh_calls s + 1"
    by (simp add: exchange_calls)
next
  assume "OA_VALID_UNTIL s = None"
  then have "priv_oa_refresh_body w False s = (Inl AttributeError, emit Time s)"
    using token sess by (auto simp: priv_oa_refresh_body_def refresh_due_def)
  then show "priv_oa_refresh w False s = Some (Inl AttributeError, emit Time s)"
    using priv_oa_refresh_first_attempt[of w False s] by simp
next
  assume "fst (priv_oa_refresh_body w force s) \<noteq> Inl HTTPException"
  then show "priv_oa_refresh w force s = Some (priv_oa_refresh_body w force s)"
    by (rule priv_oa_refresh_first_attempt)
qed

theorem priv_oa_refresh_when_due_witness:
  "priv_oa_refresh platform_up False logged_in = Some (Inr (), emit Time logged_in) \<and>
   refresh_calls (snd (priv_oa_refresh_body platform_up False expired)) = refresh_calls expired + 1 \<and>
   refresh_calls (snd (priv_oa_refresh_body platform_up True logged_in)) = refresh_calls logged_in + 1"
proof -
  have valid: "OA_VALID_UNTIL logged_in = Some 1440003540 \<and>
      \<not> 1440003540 < time platform_up (length (events logged_in))"
    by code_simp
  have late: "OA_VALID_UNTIL expired = Some 1439990000 \<and>
      1439990000 < time platform_up (length (events expired))"
    by code_simp
  have l: "OA_REFRESH_TOKEN logged_in = Some ''refresh''" "''refresh'' \<noteq> []" "session logged_in \<noteq> None"
    by (simp_all add: logged_in_def configured_def)
  have e: "OA_REFRESH_TOKEN expired = Some ''refresh''" "''refresh'' \<noteq> []" "session expired \<noteq> None"
    by (simp_all add: expired_def configured_def)
  from priv_oa_refresh_when_due[OF l, of platform_up False] valid
    priv_oa_refresh_when_due[OF e, of platform_up False] late
  show ?thesis
    by blast
qed

text \<open>
  C4, as stated, fails on a plugin that holds no access token: the check that is not
  forced reads the clock, raises AttributeError on the expiry that was never stored, and
  exchanges nothing.
\<close>

theorem priv_oa_refresh_without_token_raises:
  "OA_ACCESS_TOKEN configured = None \<and>
   priv_oa_refresh platform_up False configured = Some (Inl AttributeError, emit Time configured)"
  by code_simp

subsection \<open>The credential invariant\<close>





























subsection \<open>When the platform is down\<close>

lemma factory_assert_emit [simp]: "factory_assert (emit e s) = factory_assert s"
  by (simp add: factory_assert_def emit_def split: option.splits)

lemma factory_assert_new_session [simp]: "factory_assert (new_session d k c s) = factory_assert s"
  by (simp add: factory_assert_def new_session_def emit_def split: option.splits)

lemma can_log_in_new_session: "can_log_in s \<Longrightarrow> can_log_in (new_session d k c s)"
  by (simp add: can_log_in_def) (simp add: new_session_def)

lemma body_fails_forced:
  assumes down: "\<forall>k. refresh_access_information w k = Inl HTTPException" and ok: "can_log_in s"
  shows "\<exists>s'. priv_oa_refresh_body w True s = (Inl HTTPException, s') \<and> can_log_in s'"
  using assms
  by (auto simp: can_log_in_def priv_oa_refresh_body_def refresh_due_def exchange_def Let_def
      split: option.splits sum.splits)

lemma body_fails_expired:
  assumes down: "\<forall>k. refresh_access_information w k = Inl HTTPException"
    and ok: "can_log_in s \<and> OA_VALID_UNTIL s = Some v" and late: "\<forall>k. v < time w k"
  shows "\<exists>s'. priv_oa_refresh_body w False s = (Inl HTTPException, s') \<and>
           (can_log_in s' \<and> OA_VALID_UNTIL s' = Some v)"
  using assms
  by (auto simp: can_log_in_def priv_oa_refresh_body_def refresh_due_def exchange_def Let_def
      split: option.splits sum.splits)

lemma priv_oa_refresh_fails:
  assumes down: "\<forall>k. refresh_access_information w k = Inl HTTPException"
    and ok: "can_log_in s"
    and due: "force \<or> (\<exists>v. OA_VALID_UNTIL s = Some v \<and> (\<forall>k. v < time w k))"
  shows "\<exists>s'. priv_oa_refresh w force s = Some (Inl HTTPException, s') \<and> can_log_in s'"
proof (cases force)
  case True
  have "\<exists>s'. retry_loop (max_attempts w - 1) (\<lambda>e. e = HTTPException)
          (\<lambda>s. Some (priv_oa_refresh_body w True s)) s = Some (Inl HTTPException, s') \<and> can_log_in s'"
    by (rule retry_loop_all_fail[where Q = can_log_in, OF _ ok]) (use body_fails_forced[OF down] in auto)
  with True show ?thesis
    by (simp add: priv_oa_refresh_def retry_def withRetry_def)
next
  case False
  with due obtain v where v: "OA_VALID_UNTIL s = Some v" "\<forall>k. v < time w k" by blast
  let ?Q = "\<lambda>s. can_log_in s \<and> OA_VALID_UNTIL s = Some v"
  have "\<exists>s'. retry_loop (max_attempts w - 1) (\<lambda>e. e = HTTPException)
          (\<lambda>s. Some (priv_oa_refresh_body w False s)) s = Some (Inl HTTPException, s') \<and> ?Q s'"
    by (rule retry_loop_all_fail[where Q = ?Q]) (use body_fails_expired[OF down _ v(2)] ok v(1) in auto)
  with False show ?thesis
    by (auto simp: priv_oa_refresh_def retry_def withRetry_def)
qed

text \<open>
  C2. When every call of \<open>refresh_access_information\<close> raises HTTPException and a
  refresh is due (it is forced, or the token has run out at every reading of the clock),
  \<open>oa_refresh\<close> does not return at any depth of calls: its handler calls
  \<open>factory_reddit\<close>, which calls \<open>oa_refresh\<close> again, whose handler calls
  \<open>factory_reddit\<close> again, without end. The second call of \<open>_oa_refresh\<close> in the
  handler is never reached.
\<close>

theorem oa_refresh_never_returns:
  assumes down: "\<forall>k. refresh_access_information w k = Inl HTTPException"
    and ok: "can_log_in s"
    and due: "force \<or> (\<exists>v. OA_VALID_UNTIL s = Some v \<and> (\<forall>k. v < time w k))"
  shows "oa_refresh depth w force s = None"
  using ok due
proof (induction depth arbitrary: s force)
  case 0
  show ?case by simp
next
  case (Suc depth)
  from priv_oa_refresh_fails[OF down Suc.prems] obtain s1
    where s1: "priv_oa_refresh w force s = Some (Inl HTTPException, s1)" "can_log_in s1"
    by blast
  from s1(2) obtain d k c where app: "factory_assert s1 = Inr (d, k, c)"
    by (auto simp: can_log_in_def split: sum.splits)
  have "oa_refresh depth w True (new_session d k c s1) = None"
    by (rule Suc.IH[OF can_log_in_new_session[OF s1(2)]]) simp
  with s1(1) app show ?case by simp
qed

theorem oa_refresh_never_returns_witness:
  "(\<forall>depth. oa_refresh depth platform_down False expired = None) \<and>
   (\<forall>depth. oa_refresh depth platform_down True configured = None)"
proof -
  have down: "\<forall>k. refresh_access_information platform_down k = Inl HTTPException"
    by (simp add: platform_down_def)
  have e: "can_log_in expired"
    by code_simp
  have c: "can_log_in configured"
    by code_simp
  have late: "False \<or> (\<exists>v. OA_VALID_UNTIL expired = Some v \<and> (\<forall>k. v < time platform_down k))"
    by (simp add: expired_def platform_down_def platform_up_def)
  have forced: "True \<or> (\<exists>v. OA_VALID_UNTIL configured = Some v \<and> (\<forall>k. v < time platform_down k))"
    by simp
  from oa_refresh_never_returns[OF down e late] oa_refresh_never_returns[OF down c forced]
  show ?thesis
    by simp
qed

section \<open>Unread messages\<close>

lemma exchange_Inr_session:
  "exchange w rt s = (Inr u, s') \<Longrightarrow> session s \<noteq> None \<Longrightarrow> session s' \<noteq> None"
  by (auto simp: exchange_def Let_def split: sum.splits option.splits)

lemma body_Inr_session:
  assumes "priv_oa_refresh_body w force s = (Inr u, s')"
  shows "session s' \<noteq> None"
proof -
  from assms obtain rt where rt: "OA_REFRESH_TOKEN s = Some rt" "session s \<noteq> None"
    by (auto simp: priv_oa_refresh_body_def split: option.splits if_splits)
  obtain d s1 where d: "refresh_due w force s = (d, s1)" by (cases "refresh_due w force s")
  then have s1: "session s1 = session s"
    by (auto simp: refresh_due_def split: if_splits option.splits)
  from assms rt d have "s' = s1 \<or> exchange w rt s1 = (Inr u, s')"
    by (auto simp: priv_oa_refresh_body_def split: option.splits if_splits sum.splits bool.splits)
  with s1 rt(2) exchange_Inr_session[of w rt s1 u s'] show ?thesis by auto
qed

lemma priv_oa_refresh_Inr_session:
  assumes "priv_oa_refresh w force s = Some (Inr u, s')"
  shows "session s' \<noteq> None"
proof -
  from assms have "retry_loop (max_attempts w - 1) (\<lambda>e. e = HTTPException)
      (\<lambda>s. Some (priv_oa_refresh_body w force s)) s = Some (Inr u, s')"
    by (simp add: priv_oa_refresh_def retry_def withRetry_def)
  from retry_loop_Inr[OF this] obtain s0 where "priv_oa_refresh_body w force s0 = (Inr u, s')"
    by auto
  then show ?thesis by (rule body_Inr_session)
qed

lemma oa_refresh_Inr_session:
  assumes "oa_refresh depth w force s = Some (Inr u, s')"
  shows "session s' \<noteq> None"
proof (cases depth)
  case 0
  with assms show ?thesis by simp
next
  case (Suc n)
  with assms have
    "priv_oa_refresh w force s = Some (Inr u, s') \<or> (\<exists>s2. priv_oa_refresh w force s2 = Some (Inr u, s'))"
    by (auto split: option.splits sum.splits prod.splits if_splits)
  then show ?thesis using priv_oa_refresh_Inr_session by blast
qed

lemma unread_loop_append:
  "unread_loop w pre s = (Inr (), s_pre) \<Longrightarrow> unread_loop w (pre @ rest) s = unread_loop w rest s_pre"
  by (induction pre arbitrary: s) (auto simp: Let_def split: option.splits)

lemma unread_loop_events:
  "\<exists>n. events (snd (unread_loop w msgs s)) = events s @ take n (marked_and_dispatched msgs)"
proof (induction msgs arbitrary: s)
  case Nil
  show ?case by (simp add: marked_and_dispatched_def)
next
  case (Cons msg msgs)
  let ?s2 = "emit (On_new_message msg) (emit (Mark_as_read msg) s)"
  from Cons.IH[of ?s2] obtain n where
    n: "events (snd (unread_loop w msgs ?s2)) = events ?s2 @ take n (marked_and_dispatched msgs)"
    by blast
  have md: "marked_and_dispatched (msg # msgs) = Mark_as_read msg # On_new_message msg # marked_and_dispatched msgs"
    by (simp add: marked_and_dispatched_def)
  show ?case
  proof (cases "mark_as_read w (length (events s))")
    case (Some e)
    then have "events (snd (unread_loop w (msg # msgs) s)) = events s @ take 1 (marked_and_dispatched (msg # msgs))"
      by (simp add: md)
    then show ?thesis by blast
  next
    case None
    show ?thesis
    proof (cases "on_new_message w (Suc (length (events s)))")
      case (Some e)
      with None have "events (snd (unread_loop w (msg # msgs) s)) = events s @ take 2 (marked_and_dispatched (msg # msgs))"
        by (simp add: md numeral_2_eq_2)
      then show ?thesis by blast
    next
      case ok: None
      with None n have "events (snd (unread_loop w (msg # msgs) s)) = events s @ take (Suc (Suc n)) (marked_and_dispatched (msg # msgs))"
        by (simp add: md)
      then show ?thesis by blast
    qed
  qed
qed

lemma unread_loop_events_all:
  "fst (unread_loop w msgs s) = Inr () \<Longrightarrow>
     events (snd (unread_loop w msgs s)) = events s @ marked_and_dispatched msgs"
proof (induction msgs arbitrary: s)
  case Nil
  show ?case by (simp add: marked_and_dispatched_def)
next
  case (Cons msg msgs)
  let ?s2 = "emit (On_new_message msg) (emit (Mark_as_read msg) s)"
  from Cons.prems have ok: "mark_as_read w (length (events s)) = None"
      "on_new_message w (Suc (length (events s))) = None"
    by (auto simp: Let_def split: option.splits)
  with Cons.prems have "fst (unread_loop w msgs ?s2) = Inr ()"
    by (simp add: Let_def)
  from Cons.IH[OF this] ok show ?case
    by (simp add: marked_and_dispatched_def)
qed

lemma get_unread_messages_returns:
  "get_unread_messages_body depth w s = Some (Inr (), s') \<Longrightarrow>
     get_unread_messages depth w s = Some (Inr (), s')"
  by (simp add: get_unread_messages_def retry_def withRetry_def retry_loop_returns)

text \<open>
  C3, as amended. In a cycle, \<open>get_unread_messages\<close> first refreshes the credentials;
  when that returns it fetches the unread messages, and runs them down in order: each is
  marked as read and then handed, as it is, to the plugin's \<open>on_new_message\<close>, whether
  or not the ban pattern matches it. Nothing else is done between the fetch and the
  return: the events after the refresh are the fetch and then a leading part of the marks
  and hand-overs, all of them when nothing raises. No message is handed over before it
  is marked. The ban procedure is not called.
\<close>

theorem get_unread_messages_forwards_every_message:
  assumes refresh: "oa_refresh depth w False s = Some (Inr (), s1)"
    and fetched: "get_unread w (length (events s1)) = (msgs, raised)"
    and run: "unread_try w s1 = (r, s2)"
  shows "prefix (events s1 @ [Get_unread]) (events s2) \<and>
         prefix (events s2) (events s1 @ Get_unread # marked_and_dispatched msgs) \<and>
         (r = Inr () \<longrightarrow>
            events s2 = events s1 @ Get_unread # marked_and_dispatched msgs \<and>
            get_unread_messages depth w s = Some (Inr (), s2))"
proof -
  from oa_refresh_Inr_session[OF refresh] obtain session1 where sess: "session s1 = Some session1"
    by auto
  let ?l = "unread_loop w msgs (emit Get_unread s1)"
  have s2: "s2 = snd ?l"
    using run sess fetched by (auto simp: unread_try_def split: sum.splits option.splits prod.splits)
  from unread_loop_events[of w msgs "emit Get_unread s1"] obtain n where
    n: "events (snd ?l) = events s1 @ Get_unread # take n (marked_and_dispatched msgs)"
    by auto
  have p1: "prefix (events s1 @ [Get_unread]) (events s2)"
    using n s2 by (simp add: prefix_def)
  have p2: "prefix (events s2) (events s1 @ Get_unread # marked_and_dispatched msgs)"
    using n s2 by (simp add: take_is_prefix)
  have p3: "events s2 = events s1 @ Get_unread # marked_and_dispatched msgs \<and>
        get_unread_messages depth w s = Some (Inr (), s2)" if r: "r = Inr ()"
  proof -
    from run sess fetched r have l: "fst ?l = Inr ()"
      by (auto simp: unread_try_def split: sum.splits option.splits prod.splits)
    from unread_loop_events_all[OF l] s2 have "events s2 = events s1 @ Get_unread # marked_and_dispatched msgs"
      by simp
    moreover have "get_unread_messages_body depth w s = Some (Inr (), s2)"
      using refresh run r by (simp add: get_unread_messages_body_def)
    ultimately show ?thesis
      using get_unread_messages_returns by blast
  qed
  from p1 p2 p3 show ?thesis by blast
qed

theorem get_unread_messages_forwards_every_message_witness:
  "events (snd (unread_try platform_up (emit Time logged_in))) =
     events (emit Time logged_in) @
       Get_unread # marked_and_dispatched [msg_user_alice, msg_user_in_sub] \<and>
   get_unread_messages 1 platform_up logged_in =
     Some (Inr (), snd (unread_try platform_up (emit Time logged_in)))"
proof -
  have refresh: "oa_refresh 1 platform_up False logged_in = Some (Inr (), emit Time logged_in)"
    by code_simp
  have fetched: "get_unread platform_up (length (events (emit Time logged_in))) =
      ([msg_user_alice, msg_user_in_sub], None)"
    by (simp add: platform_up_def)
  have returns: "fst (unread_try platform_up (emit Time logged_in)) = Inr ()"
    by code_simp
  have run: "unread_try platform_up (emit Time logged_in) =
      (Inr (), snd (unread_try platform_up (emit Time logged_in)))"
    using returns by (metis prod.collapse)
  from get_unread_messages_forwards_every_message[OF refresh fetched run] show ?thesis
    by blast
qed

text \<open>
  C3, as stated, fails on a message that the ban pattern matches: it is handed to
  \<open>on_new_message\<close> like any other, and no ban is recorded.
\<close>

theorem get_unread_messages_forwards_ban_command:
  "RE_BANMSG_search (body msg_user_alice) = Some (''u'', ''alice'') \<and>
   get_unread_messages 1 platform_up logged_in =
     Some (Inr (),
       logged_in\<lparr>events :=
         [Time, Get_unread, Mark_as_read msg_user_alice, On_new_message msg_user_alice,
          Mark_as_read msg_user_in_sub, On_new_message msg_user_in_sub]\<rparr>)"
  by code_simp

text \<open>
  C10. When the refresh has returned, an AssertionError raised in the \<open>try\<close> is
  swallowed: \<open>get_unread_messages\<close> returns, in the state the error left. That is so
  when the fetch raises it, when marking a message raises it, and when the plugin's
  \<open>on_new_message\<close> raises it; the messages after the one that raised are neither
  marked nor handed over.
\<close>

theorem get_unread_messages_swallows_AssertionError:
  assumes refresh: "oa_refresh depth w False s = Some (Inr (), s1)"
  shows "(\<forall>s2. unread_try w s1 = (Inl AssertionError, s2) \<longrightarrow>
            get_unread_messages depth w s = Some (Inr (), s2)) \<and>
         (get_unread w (length (events s1)) = ([], Some AssertionError) \<longrightarrow>
            get_unread_messages depth w s = Some (Inr (), emit Get_unread s1)) \<and>
         (\<forall>pre msg rest raised s_pre.
            get_unread w (length (events s1)) = (pre @ msg # rest, raised) \<and>
            unread_loop w pre (emit Get_unread s1) = (Inr (), s_pre) \<and>
            mark_as_read w (length (events s_pre)) = Some AssertionError \<longrightarrow>
            get_unread_messages depth w s = Some (Inr (), emit (Mark_as_read msg) s_pre)) \<and>
         (\<forall>pre msg rest raised s_pre.
            get_unread w (length (events s1)) = (pre @ msg # rest, raised) \<and>
            unread_loop w pre (emit Get_unread s1) = (Inr (), s_pre) \<and>
            mark_as_read w (length (events s_pre)) = None \<and>
            on_new_message w (Suc (length (events s_pre))) = Some AssertionError \<longrightarrow>
            get_unread_messages depth w s =
              Some (Inr (), emit (On_new_message msg) (emit (Mark_as_read msg) s_pre)))"
proof -
  from oa_refresh_Inr_session[OF refresh] obtain session1 where sess: "session s1 = Some session1"
    by auto
  have swallow: "get_unread_messages depth w s = Some (Inr (), s2)"
    if "unread_try w s1 = (Inl AssertionError, s2)" for s2
  proof -
    have "get_unread_messages_body depth w s = Some (Inr (), s2)"
      using refresh that by (simp add: get_unread_messages_body_def)
    then show ?thesis by (rule get_unread_messages_returns)
  qed
  have fetch: "unread_try w s1 = (Inl AssertionError, emit Get_unread s1)"
    if "get_unread w (length (events s1)) = ([], Some AssertionError)"
    using that sess by (simp add: unread_try_def)
  have mark: "unread_try w s1 = (Inl AssertionError, emit (Mark_as_read msg) s_pre)"
    if "get_unread w (length (events s1)) = (pre @ msg # rest, raised)"
      "unread_loop w pre (emit Get_unread s1) = (Inr (), s_pre)"
      "mark_as_read w (length (events s_pre)) = Some AssertionError"
    for pre msg rest raised s_pre
    using that sess unread_loop_append[OF that(2), of "msg # rest"]
    by (simp add: unread_try_def Let_def)
  have handle: "unread_try w s1 =
      (Inl AssertionError, emit (On_new_message msg) (emit (Mark_as_read msg) s_pre))"
    if "get_unread w (length (events s1)) = (pre @ msg # rest, raised)"
      "unread_loop w pre (emit Get_unread s1) = (Inr (), s_pre)"
      "mark_as_read w (length (events s_pre)) = None"
      "on_new_message w (Suc (length (events s_pre))) = Some AssertionError"
    for pre msg rest raised s_pre
    using that sess unread_loop_append[OF that(2), of "msg # rest"]
    by (simp add: unread_try_def Let_def)
  show ?thesis
    using swallow fetch mark handle by blast
qed

theorem get_unread_messages_swallows_AssertionError_witness:
  "get_unread_messages 1 handler_asserts logged_in =
     Some (Inr (),
       emit (On_new_message msg_user_alice)
         (emit (Mark_as_read msg_user_alice) (emit Get_unread (emit Time logged_in))))"
proof -
  have refresh: "oa_refresh 1 handler_asserts False logged_in = Some (Inr (), emit Time logged_in)"
    by code_simp
  have fetched: "get_unread handler_asserts (length (events (emit Time logged_in))) =
      ([] @ msg_user_alice # [msg_user_in_sub], None)"
    by (simp add: handler_asserts_def platform_up_def)
  have pre: "unread_loop handler_asserts [] (emit Get_unread (emit Time logged_in)) =
      (Inr (), emit Get_unread (emit Time logged_in))"
    by simp
  have marks: "mark_as_read handler_asserts (length (events (emit Get_unread (emit Time logged_in)))) = None"
    by (simp add: handler_asserts_def platform_up_def)
  have raises: "on_new_message handler_asserts
      (Suc (length (events (emit Get_unread (emit Time logged_in))))) = Some AssertionError"
    by (simp add: handler_asserts_def platform_up_def)
  from get_unread_messages_swallows_AssertionError[OF refresh] fetched pre marks raises
  show ?thesis
    by blast
qed

end
